theory Spec2Isabelle
  imports Main
begin

section \<open>JavaScript values and string helpers\<close>

text \<open>
  The content script is JavaScript: a recorded step is a plain object whose properties may be
  absent, and the replayer receives steps from outside. A step is therefore modelled as an
  association list from property names to JavaScript values; reading an absent property
  gives \<open>Undefined\<close>. Strings are lists of characters; the helpers below treat them as ASCII.
\<close>

datatype jsval = Undefined | Null | Bool bool | Num int | Str string

type_synonym step = "(string \<times> jsval) list"

definition field :: "step \<Rightarrow> string \<Rightarrow> jsval" where
  "field s k = (case map_of s k of None \<Rightarrow> Undefined | Some v \<Rightarrow> v)"

fun truthy :: "jsval \<Rightarrow> bool" where
  "truthy Undefined = False"
| "truthy Null = False"
| "truthy (Bool b) = b"
| "truthy (Num n) = (n \<noteq> 0)"
| "truthy (Str s) = (s \<noteq> [])"

definition digit_char :: "nat \<Rightarrow> char" where
  "digit_char d = ''0123456789'' ! d"

fun show_nat :: "nat \<Rightarrow> string" where
  "show_nat n = (if n < 10 then [digit_char n] else show_nat (n div 10) @ [digit_char (n mod 10)])"

definition show_int :: "int \<Rightarrow> string" where
  "show_int i = (if i < 0 then CHR ''-'' # show_nat (nat (- i)) else show_nat (nat i))"

text \<open>String conversion as done by a template literal and by the DOM string arguments.\<close>

fun toString :: "jsval \<Rightarrow> string" where
  "toString Undefined = ''undefined''"
| "toString Null = ''null''"
| "toString (Bool b) = (if b then ''true'' else ''false'')"
| "toString (Num n) = show_int n"
| "toString (Str s) = s"

definition of_opt :: "string option \<Rightarrow> jsval" where
  "of_opt v = (case v of None \<Rightarrow> Undefined | Some s \<Rightarrow> Str s)"

definition toLowerCase_char :: "char \<Rightarrow> char" where
  "toLowerCase_char c =
     (case map_of (zip ''ABCDEFGHIJKLMNOPQRSTUVWXYZ'' ''abcdefghijklmnopqrstuvwxyz'') c of
        None \<Rightarrow> c | Some l \<Rightarrow> l)"

definition toLowerCase :: "string \<Rightarrow> string" where
  "toLowerCase s = map toLowerCase_char s"

text \<open>The characters matched by \<open>\s\<close> and removed by \<open>trim\<close> (ASCII ones).\<close>

definition is_space :: "char \<Rightarrow> bool" where
  "is_space c = (c \<in> set [CHR 0x09, CHR 0x0A, CHR 0x0B, CHR 0x0C, CHR 0x0D, CHR '' ''])"

definition trim :: "string \<Rightarrow> string" where
  "trim s = rev (dropWhile is_space (rev (dropWhile is_space s)))"

text \<open>\<open>s.split(/\s+/)\<close>: the pieces between maximal runs of whitespace, empty pieces kept.\<close>

function split_ws :: "string \<Rightarrow> string list" where
  "split_ws s =
     (let piece = takeWhile (\<lambda>c. \<not> is_space c) s;
          rest = dropWhile (\<lambda>c. \<not> is_space c) s
      in if rest = [] then [piece] else piece # split_ws (dropWhile is_space rest))"
  by pat_completeness auto
termination
proof (relation "measure length")
  show "wf (measure length)" by simp
next
  fix s :: string and piece rest
  assume r: "rest = dropWhile (\<lambda>c. \<not> is_space c) s" and ne: "rest \<noteq> []"
  from ne obtain c cs where rc: "rest = c # cs" by (cases rest) auto
  have "is_space c" using r rc by (metis hd_dropWhile list.sel(1) ne)
  then have "length (dropWhile is_space rest) \<le> length cs"
    using rc by (simp add: length_dropWhile_le)
  moreover have "length rest \<le> length s" using r by (simp add: length_dropWhile_le)
  ultimately show "(dropWhile is_space rest, s) \<in> measure length" using rc by simp
qed

declare split_ws.simps [simp del]

text \<open>\<open>xs.join(sep)\<close>.\<close>

fun join :: "string \<Rightarrow> string list \<Rightarrow> string" where
  "join sep [] = []"
| "join sep [x] = x"
| "join sep (x # y # ys) = x @ sep @ join sep (y # ys)"

section \<open>The document as the script sees it\<close>

text \<open>
  An element carries the properties the script reads. A property that JavaScript may find
  \<open>undefined\<close> is an option; \<open>className\<close> is \<open>None\<close> when it is not a string (as on SVG
  elements). A node is an element together with what \<open>getSelector\<close> walks over: its previous
  element siblings (nearest first), its parent element, and whether it is \<open>document.body\<close>.
\<close>

record element =
  tagName :: string
  el_id :: string
  el_name :: "string option"
  className :: "string option"
  el_type :: "string option"
  el_value :: "string option"
  checked :: "bool option"
  innerText :: "string option"

datatype node =
  Node (props: element) (previousElementSiblings: "element list")
       (parentElement: "node option") (isBody: bool)

text \<open>
  \<open>document.querySelectorAll(selector).length\<close> is computed by the browser, not by the script:
  the document is the function that gives this number for a selector string. The call is
  taken to return for every string the script builds.
\<close>

type_synonym document = "string \<Rightarrow> nat"

section \<open>getSelector\<close>

definition quote :: string where
  "quote = [CHR 0x22]"

definition classes_of :: "string \<Rightarrow> string list" where
  "classes_of cn = filter (\<lambda>c. c \<noteq> []) (split_ws (trim cn))"

definition compound_selector :: "string \<Rightarrow> string list \<Rightarrow> string" where
  "compound_selector tag classes = toLowerCase tag @ ''.'' @ join ''.'' classes"

text \<open>Lines 213-222: the selector returned by the class rule, \<open>None\<close> when it falls through.\<close>

definition class_combination :: "document \<Rightarrow> node \<Rightarrow> string option" where
  "class_combination document element =
     (case className (props element) of
        None \<Rightarrow> None
      | Some cn \<Rightarrow>
          if cn = [] then None
          else let classes = classes_of cn in
            if length classes > 0
            then let selector = compound_selector (tagName (props element)) classes in
              if document selector = 1 then Some selector else None
            else None)"

text \<open>Lines 236-241: the inner loop over \<open>previousElementSibling\<close>.\<close>

fun count_nth :: "string \<Rightarrow> element list \<Rightarrow> nat \<Rightarrow> nat" where
  "count_nth tag [] n = n"
| "count_nth tag (sibling # prev) n =
     count_nth tag prev (if tagName sibling = tag then n + 1 else n)"

text \<open>Lines 228-249: the outer loop; \<open>path.unshift\<close> is a cons.\<close>

fun build_path :: "node option \<Rightarrow> string list \<Rightarrow> string list" where
  "build_path None path = path"
| "build_path (Some (Node e prev parent body)) path =
     (if body then path
      else if el_id e \<noteq> [] then (toLowerCase (tagName e) @ ''#'' @ el_id e) # path
      else
        let n = count_nth (tagName e) prev 1;
            selector = toLowerCase (tagName e) @
              (if n > 1 then '':nth-of-type('' @ show_nat n @ '')'' else [])
        in build_path parent (selector # path))"

definition positional_path :: "node \<Rightarrow> string" where
  "positional_path element = join '' > '' (build_path (Some element) [])"

definition getSelector :: "document \<Rightarrow> node \<Rightarrow> string" where
  "getSelector document element =
     (if el_id (props element) \<noteq> [] then ''#'' @ el_id (props element)
      else if truthy (of_opt (el_name (props element)))
      then ''[name='' @ quote @ toString (of_opt (el_name (props element))) @ quote @ '']''
      else case class_combination document element of
             Some selector \<Rightarrow> selector
           | None \<Rightarrow> positional_path element)"

section \<open>Recording\<close>

text \<open>
  The script's globals \<open>isRecording\<close> and \<open>recordedSteps\<close>, and the capture listeners it has
  registered on the document. Console output, the status badge and the highlight flash do
  not touch this state and are left out. An event carries its target, the document at the
  time of the event, and the value \<open>Date.now()\<close> returns.
\<close>

datatype handler = HandleClick | HandleInput | HandleChange

record recorder =
  isRecording :: bool
  recordedSteps :: "step list"
  listeners :: "(string \<times> handler) list"

record event =
  target :: node
  doc :: document
  now :: int

definition addEventListener :: "string \<Rightarrow> handler \<Rightarrow> (string \<times> handler) list \<Rightarrow> (string \<times> handler) list" where
  "addEventListener ty h ls = (if (ty, h) \<in> set ls then ls else ls @ [(ty, h)])"

definition removeEventListener :: "string \<Rightarrow> handler \<Rightarrow> (string \<times> handler) list \<Rightarrow> (string \<times> handler) list" where
  "removeEventListener ty h ls = filter (\<lambda>l. l \<noteq> (ty, h)) ls"

definition startRecording :: "recorder \<Rightarrow> recorder" where
  "startRecording st =
     st\<lparr>isRecording := True, recordedSteps := [],
        listeners := addEventListener ''change'' HandleChange
                       (addEventListener ''input'' HandleInput
                         (addEventListener ''click'' HandleClick (listeners st)))\<rparr>"

text \<open>\<open>stopRecording\<close> returns \<open>recordedSteps\<close>; the pair is the returned value and the new state.\<close>

definition stopRecording :: "recorder \<Rightarrow> step list \<times> recorder" where
  "stopRecording st =
     (let st' = st\<lparr>isRecording := False,
                    listeners := removeEventListener ''change'' HandleChange
                                   (removeEventListener ''input'' HandleInput
                                     (removeEventListener ''click'' HandleClick (listeners st)))\<rparr>
      in (recordedSteps st', st'))"

definition of_opt_bool :: "bool option \<Rightarrow> jsval" where
  "of_opt_bool v = (case v of None \<Rightarrow> Undefined | Some b \<Rightarrow> Bool b)"

definition handleClick :: "event \<Rightarrow> recorder \<Rightarrow> recorder" where
  "handleClick ev st =
     (if \<not> isRecording st then st
      else if el_id (props (target ev)) = ''macromate-indicator'' then st
      else
        let selector = getSelector (doc ev) (target ev);
            tag = toLowerCase (tagName (props (target ev)));
            shown = (case innerText (props (target ev)) of
                       None \<Rightarrow> Undefined | Some t \<Rightarrow> Str (take 50 t))
        in st\<lparr>recordedSteps := recordedSteps st @
              [[(''type'', Str ''click''), (''selector'', Str selector), (''tagName'', Str tag),
                (''text'', if truthy shown then shown else Str []),
                (''timestamp'', Num (now ev))]]\<rparr>)"

definition handleInput :: "event \<Rightarrow> recorder \<Rightarrow> recorder" where
  "handleInput ev st =
     (if \<not> isRecording st then st
      else
        let selector = getSelector (doc ev) (target ev);
            val = of_opt (el_value (props (target ev)));
            isSecret = (el_type (props (target ev)) = Some ''password'');
            kept = filter (\<lambda>step. \<not> (field step ''type'' = Str ''type'' \<and>
                                        field step ''selector'' = Str selector))
                     (recordedSteps st)
        in st\<lparr>recordedSteps := kept @
              [[(''type'', Str ''type''), (''selector'', Str selector),
                (''text'', if isSecret then Str ''{{SECRET}}'' else val),
                (''secret'', Bool isSecret), (''timestamp'', Num (now ev))]]\<rparr>)"

definition handleChange :: "event \<Rightarrow> recorder \<Rightarrow> recorder" where
  "handleChange ev st =
     (if \<not> isRecording st then st
      else
        let selector = getSelector (doc ev) (target ev);
            tag = toLowerCase (tagName (props (target ev)))
        in if tag = ''select''
           then st\<lparr>recordedSteps := recordedSteps st @
                  [[(''type'', Str ''select''), (''selector'', Str selector),
                    (''value'', of_opt (el_value (props (target ev)))),
                    (''timestamp'', Num (now ev))]]\<rparr>
           else if el_type (props (target ev)) = Some ''checkbox'' \<or>
                   el_type (props (target ev)) = Some ''radio''
           then st\<lparr>recordedSteps := recordedSteps st @
                  [[(''type'', Str ''click''), (''selector'', Str selector),
                    (''checked'', of_opt_bool (checked (props (target ev)))),
                    (''timestamp'', Num (now ev))]]\<rparr>
           else st)"

text \<open>The browser delivers an event of a given type to the listeners registered for it.\<close>

fun call :: "handler \<Rightarrow> event \<Rightarrow> recorder \<Rightarrow> recorder" where
  "call HandleClick = handleClick"
| "call HandleInput = handleInput"
| "call HandleChange = handleChange"

definition deliver :: "string \<Rightarrow> event \<Rightarrow> recorder \<Rightarrow> recorder" where
  "deliver ty ev st =
     fold (\<lambda>l s. if fst l = ty then call (snd l) ev s else s) (listeners st) st"

section \<open>Replay\<close>

text \<open>
  What replay does to the page is a trace of effects, in order. \<open>Wait\<close> is \<open>await wait(ms)\<close>.
  The page is the browser's side: given the effects performed so far it answers
  \<open>document.querySelector\<close>, with \<open>None\<close> for \<open>null\<close>. Console output is left out. The
  only exception in the model is the one \<open>executeStep\<close> throws itself; the calls into the
  page are taken to return.
\<close>

datatype 'e effect =
    ShowRunningIndicator
  | RemoveRunningIndicator
  | QuerySelector string
  | ScrollIntoView 'e
  | Wait jsval
  | HighlightElementBriefly 'e
  | Click 'e
  | Focus 'e
  | SetValue 'e jsval
  | DispatchEvent 'e string
  | Alert string

type_synonym 'e page = "'e effect list \<Rightarrow> string \<Rightarrow> 'e option"

text \<open>A call either returns or throws an \<open>Error\<close> with a message; both carry the trace so far.\<close>

datatype 'e result = Returned "'e effect list" | Thrown string "'e effect list"

definition executeStep :: "'e page \<Rightarrow> step \<Rightarrow> 'e effect list \<Rightarrow> 'e result" where
  "executeStep page step tr =
     (let selector = toString (field step ''selector'') in
      case page tr selector of
        None \<Rightarrow> Thrown (''Element not found: '' @ selector) (tr @ [QuerySelector selector])
      | Some element \<Rightarrow>
          Returned (tr @ [QuerySelector selector, ScrollIntoView element, Wait (Num 200),
                          HighlightElementBriefly element] @
            (if field step ''type'' = Str ''click'' then [Click element]
             else if field step ''type'' = Str ''type''
             then [Focus element, SetValue element (field step ''text''),
                   DispatchEvent element ''input'', DispatchEvent element ''change'']
             else if field step ''type'' = Str ''select''
             then [SetValue element (field step ''value''), DispatchEvent element ''change'']
             else if field step ''type'' = Str ''wait''
             then [Wait (if truthy (field step ''timeout'') then field step ''timeout''
                         else Num 1000)]
             else [])))"

text \<open>
  The loop of \<open>runMacro\<close> from index \<open>i\<close> on. It ends by running past the last step or by the
  \<open>break\<close> of the \<open>catch\<close> block; the result says which, with the index of the \<open>break\<close>.
\<close>

datatype 'e loop_end = Completed "'e effect list" | Aborted nat "'e effect list"

fun trace_of :: "'e loop_end \<Rightarrow> 'e effect list" where
  "trace_of (Completed tr) = tr"
| "trace_of (Aborted i tr) = tr"

fun run_loop :: "'e page \<Rightarrow> nat \<Rightarrow> step list \<Rightarrow> 'e effect list \<Rightarrow> 'e loop_end" where
  "run_loop page i [] tr = Completed tr"
| "run_loop page i (step # rest) tr =
     (case executeStep page step tr of
        Returned tr' \<Rightarrow> run_loop page (i + 1) rest (tr' @ [Wait (Num 500)])
      | Thrown message tr' \<Rightarrow>
          Aborted i (tr' @ [Alert (''Error at step '' @ show_nat (i + 1) @ '': '' @ message)]))"

definition runMacro :: "'e page \<Rightarrow> step list \<Rightarrow> 'e effect list \<Rightarrow> 'e effect list" where
  "runMacro page steps tr =
     trace_of (run_loop page 0 steps (tr @ [ShowRunningIndicator])) @ [RemoveRunningIndicator]"

section \<open>Notions used to state the properties\<close>

text \<open>A Type step for a selector, as the filter of \<open>handleInput\<close> recognises it.\<close>

definition type_step_for :: "string \<Rightarrow> step \<Rightarrow> bool" where
  "type_step_for selector step =
     (field step ''type'' = Str ''type'' \<and> field step ''selector'' = Str selector)"

text \<open>A recording run: events of given types, delivered in order.\<close>

definition deliver_all :: "(string \<times> event) list \<Rightarrow> recorder \<Rightarrow> recorder" where
  "deliver_all run st = fold (\<lambda>e s. deliver (fst e) (snd e) s) run st"

text \<open>
  The same event with another value in the target field, and two events that are equal or
  differ in nothing but the value of a password field.
\<close>

definition with_value :: "string option \<Rightarrow> event \<Rightarrow> event" where
  "with_value v ev =
     ev\<lparr>target := Node ((props (target ev))\<lparr>el_value := v\<rparr>)
                        (previousElementSiblings (target ev))
                        (parentElement (target ev)) (isBody (target ev))\<rparr>"

definition differ_in_secret_only :: "string \<times> event \<Rightarrow> string \<times> event \<Rightarrow> bool" where
  "differ_in_secret_only a b =
     (fst a = fst b \<and>
      (snd a = snd b \<or>
       (el_type (props (target (snd a))) = Some ''password'' \<and>
        toLowerCase (tagName (props (target (snd a)))) \<noteq> ''select'' \<and>
        with_value None (snd a) = with_value None (snd b))))"

text \<open>
  The positional path in the words of the specification. \<open>walk_up\<close> lists the levels visited,
  the node first: it goes from the node through its ancestors, stops before the document's
  root container, and stops at (and keeps) the first level that has an identifier.
  \<open>ordinal\<close> is the 1-based position among the siblings with the same tag name. \<open>segment\<close> is
  what a level emits, and \<open>path_spec\<close> joins the segments from the root end to the node with
  a given separator.
\<close>

fun walk_up :: "node option \<Rightarrow> node list" where
  "walk_up None = []"
| "walk_up (Some (Node e prev parent body)) =
     (if body then []
      else if el_id e \<noteq> [] then [Node e prev parent body]
      else Node e prev parent body # walk_up parent)"

definition ordinal :: "node \<Rightarrow> nat" where
  "ordinal n =
     Suc (length (filter (\<lambda>s. tagName s = tagName (props n)) (previousElementSiblings n)))"

definition segment :: "node \<Rightarrow> string" where
  "segment n =
     toLowerCase (tagName (props n)) @
     (if el_id (props n) \<noteq> [] then ''#'' @ el_id (props n)
      else if ordinal n > 1 then '':nth-of-type('' @ show_nat (ordinal n) @ '')''
      else [])"

definition path_spec :: "string \<Rightarrow> node \<Rightarrow> string" where
  "path_spec sep n = join sep (rev (map segment (walk_up (Some n))))"

text \<open>
  Two element siblings, the first earlier in the parent's child list: the previous siblings
  of the second end with the first and the first's previous siblings.
\<close>

definition siblings_in_order :: "node \<Rightarrow> node \<Rightarrow> bool" where
  "siblings_in_order a b =
     (parentElement a = parentElement b \<and>
      length (previousElementSiblings a) < length (previousElementSiblings b) \<and>
      drop (length (previousElementSiblings b) - Suc (length (previousElementSiblings a)))
           (previousElementSiblings b) = props a # previousElementSiblings a)"

section \<open>Example data\<close>

definition idle :: recorder where
  "idle = \<lparr>isRecording = False, recordedSteps = [], listeners = []\<rparr>"

definition body_node :: node where
  "body_node = Node \<lparr>tagName = ''BODY'', el_id = [], el_name = None, className = Some [],
      el_type = None, el_value = None, checked = None, innerText = Some []\<rparr> [] None True"

definition checkbox_node :: node where
  "checkbox_node = Node \<lparr>tagName = ''INPUT'', el_id = [], el_name = Some ''agree'',
      className = Some [], el_type = Some ''checkbox'', el_value = Some ''on'',
      checked = Some True, innerText = Some []\<rparr> [] (Some body_node) False"

definition toggle_event :: event where
  "toggle_event = \<lparr>target = checkbox_node, doc = (\<lambda>_. 0), now = 1000\<rparr>"

definition agree_selector :: string where
  "agree_selector = ''[name='' @ quote @ ''agree'' @ quote @ '']''"

definition agree_page :: "node page" where
  "agree_page = (\<lambda>tr selector. if selector = agree_selector then Some checkbox_node else None)"

definition empty_page :: "unit page" where
  "empty_page = (\<lambda>tr selector. None)"

definition wait_step :: step where
  "wait_step = [(''type'', Str ''wait''), (''timeout'', Num 2000)]"

definition go_page :: "nat page" where
  "go_page = (\<lambda>tr selector. if selector = ''#go'' then Some 7 else None)"


definition text_input :: "string \<Rightarrow> string \<Rightarrow> string \<Rightarrow> node" where
  "text_input ty name val = Node \<lparr>tagName = ''INPUT'', el_id = [], el_name = Some name,
      className = Some [], el_type = Some ty, el_value = Some val,
      checked = Some False, innerText = Some []\<rparr> [] (Some body_node) False"

definition input_event :: "string \<Rightarrow> string \<Rightarrow> string \<Rightarrow> int \<Rightarrow> event" where
  "input_event ty name val t = \<lparr>target = text_input ty name val, doc = (\<lambda>_. 0), now = t\<rparr>"

definition name_selector :: "string \<Rightarrow> string" where
  "name_selector name = ''[name='' @ quote @ name @ quote @ '']''"

definition recording :: recorder where
  "recording = startRecording idle"

definition plain :: "string \<Rightarrow> string \<Rightarrow> element" where
  "plain tag cls = \<lparr>tagName = tag, el_id = [], el_name = None, className = Some cls,
      el_type = None, el_value = None, checked = None, innerText = Some []\<rparr>"

definition div_node :: node where
  "div_node = Node (plain ''DIV'' ''box'') [] (Some body_node) False"

definition first_item :: node where
  "first_item = Node (plain ''SPAN'' ''item  hot'') [] (Some div_node) False"

definition second_item :: node where
  "second_item = Node (plain ''SPAN'' ''item  hot'') [plain ''SPAN'' ''item  hot''] (Some div_node) False"

definition two_matches :: document where
  "two_matches = (\<lambda>selector. 2)"

definition dotted_first :: node where
  "dotted_first = Node (plain ''SPAN'' ''a.b'') [] (Some div_node) False"

definition dotted_second :: node where
  "dotted_second = Node (plain ''SPAN'' ''a.b'') [plain ''SPAN'' ''a.b''] (Some div_node) False"

definition one_match :: document where
  "one_match = (\<lambda>selector. if selector = ''span.a.b'' then 1 else 0)"

definition anchored_item :: node where
  "anchored_item =
     Node (plain ''SPAN'' []) []
       (Some (Node ((plain ''DIV'' [])\<lparr>el_id := ''main''\<rparr>) []
          (Some (Node (plain ''SECTION'' []) [] (Some body_node) False)) False)) False"

section \<open>Starting and stopping\<close>

lemma handlers_idle:
  "\<not> isRecording st \<Longrightarrow> call h ev st = st"
  by (cases h) (simp_all add: handleClick_def handleInput_def handleChange_def)

lemma deliver_idle:
  "\<not> isRecording st \<Longrightarrow> deliver ty ev st = st"
proof -
  assume idle: "\<not> isRecording st"
  have "fold (\<lambda>l s. if fst l = ty then call (snd l) ev s else s) ls st = st" for ls
    by (induction ls) (simp_all add: handlers_idle [OF idle])
  then show ?thesis by (simp add: deliver_def)
qed

text \<open>
  C3, as the code has it. \<open>stopRecording\<close> unregisters the three capture listeners, leaves
  the session idle and returns the buffer; it does not empty the buffer, which still holds
  the returned steps afterwards. Events delivered after the stop change nothing, and the
  buffer is emptied by the next \<open>startRecording\<close>.
\<close>

theorem stopRecording_returns_and_keeps_buffer:
  "fst (stopRecording st) = recordedSteps st \<and>
   recordedSteps (snd (stopRecording st)) = recordedSteps st \<and>
   \<not> isRecording (snd (stopRecording st)) \<and>
   set (listeners (snd (stopRecording st))) \<inter>
     {(''click'', HandleClick), (''input'', HandleInput), (''change'', HandleChange)} = {} \<and>
   deliver ty ev (snd (stopRecording st)) = snd (stopRecording st) \<and>
   recordedSteps (startRecording (snd (stopRecording st))) = []"
proof -
  have "\<not> isRecording (snd (stopRecording st))"
    by (simp add: stopRecording_def Let_def)
  then have "deliver ty ev (snd (stopRecording st)) = snd (stopRecording st)"
    by (rule deliver_idle)
  then show ?thesis
    by (auto simp: stopRecording_def startRecording_def removeEventListener_def Let_def)
qed

theorem stopRecording_returns_and_keeps_buffer_witness:
  "fst (stopRecording (deliver ''click'' toggle_event (startRecording idle))) =
     [[(''type'', Str ''click''), (''selector'', Str agree_selector),
       (''tagName'', Str ''input''), (''text'', Str []), (''timestamp'', Num 1000)]] \<and>
   recordedSteps (snd (stopRecording (deliver ''click'' toggle_event (startRecording idle)))) =
     [[(''type'', Str ''click''), (''selector'', Str agree_selector),
       (''tagName'', Str ''input''), (''text'', Str []), (''timestamp'', Num 1000)]]"
  using stopRecording_returns_and_keeps_buffer
          [of "deliver ''click'' toggle_event (startRecording idle)"]
  by (simp add: deliver_def startRecording_def idle_def addEventListener_def handleClick_def
        toggle_event_def checkbox_node_def getSelector_def of_opt_def agree_selector_def
        toLowerCase_def toLowerCase_char_def)

text \<open>
  C3, as the specification states it, fails: after one recorded click, the buffer is not
  empty once \<open>stopRecording\<close> has returned.
\<close>

theorem stopRecording_buffer_not_cleared:
  "recordedSteps (snd (stopRecording (deliver ''click'' toggle_event (startRecording idle)))) \<noteq> []"
  by (simp add: stopRecording_def deliver_def startRecording_def idle_def addEventListener_def
        handleClick_def toggle_event_def checkbox_node_def Let_def)

section \<open>Toggle controls\<close>

text \<open>
  \<open>handleClick\<close> looks at the target's id only: while recording, a click on any target other
  than the recorder's badge, a checkbox or radio control included, appends a Click step
  with selector, tag name and text. \<open>handleChange\<close> on a checkbox or radio control that is
  not a \<open>select\<close> appends a further Click step with the \<open>checked\<close> value.
\<close>

lemma toggle_records_click_and_change:
  assumes "isRecording st"
    and "el_id (props (target click_ev)) \<noteq> ''macromate-indicator''"
    and "el_type (props (target change_ev)) = Some ''checkbox'' \<or>
         el_type (props (target change_ev)) = Some ''radio''"
    and "toLowerCase (tagName (props (target change_ev))) \<noteq> ''select''"
  shows "recordedSteps (handleChange change_ev (handleClick click_ev st)) =
         recordedSteps st @
         [[(''type'', Str ''click''),
           (''selector'', Str (getSelector (doc click_ev) (target click_ev))),
           (''tagName'', Str (toLowerCase (tagName (props (target click_ev))))),
           (''text'', Str (case innerText (props (target click_ev)) of
                             None \<Rightarrow> [] | Some t \<Rightarrow> take 50 t)),
           (''timestamp'', Num (now click_ev))],
          [(''type'', Str ''click''),
           (''selector'', Str (getSelector (doc change_ev) (target change_ev))),
           (''checked'', of_opt_bool (checked (props (target change_ev)))),
           (''timestamp'', Num (now change_ev))]]"
proof -
  have shown: "(if truthy (case v of None \<Rightarrow> Undefined | Some t \<Rightarrow> Str (take 50 t))
                then (case v of None \<Rightarrow> Undefined | Some t \<Rightarrow> Str (take 50 t)) else Str []) =
               Str (case v of None \<Rightarrow> [] | Some t \<Rightarrow> take 50 t)" for v :: "string option"
    by (cases v) auto
  from assms(1,2) have click:
    "handleClick click_ev st = st\<lparr>recordedSteps := recordedSteps st @
       [[(''type'', Str ''click''),
         (''selector'', Str (getSelector (doc click_ev) (target click_ev))),
         (''tagName'', Str (toLowerCase (tagName (props (target click_ev))))),
         (''text'', Str (case innerText (props (target click_ev)) of
                           None \<Rightarrow> [] | Some t \<Rightarrow> take 50 t)),
         (''timestamp'', Num (now click_ev))]]\<rparr>"
    by (simp add: handleClick_def Let_def shown)
  show ?thesis
    unfolding click using assms(1,3,4) by (auto simp: handleChange_def Let_def)
qed

text \<open>
  C1 on the code. The user ticks the checkbox \<open>agree\<close> of a recording session; the browser
  delivers the click event and then the change event. The click handler appends a Click
  step, the change handler a second one: the toggle leaves two steps, not one. Replayed on
  a page that has the checkbox, the two steps activate it twice.
\<close>

theorem checkbox_toggle_recorded_twice:
  "recordedSteps (handleClick toggle_event (startRecording idle)) =
     [[(''type'', Str ''click''), (''selector'', Str agree_selector),
       (''tagName'', Str ''input''), (''text'', Str []), (''timestamp'', Num 1000)]] \<and>
   recordedSteps (deliver ''change'' toggle_event
       (deliver ''click'' toggle_event (startRecording idle))) =
     [[(''type'', Str ''click''), (''selector'', Str agree_selector),
       (''tagName'', Str ''input''), (''text'', Str []), (''timestamp'', Num 1000)],
      [(''type'', Str ''click''), (''selector'', Str agree_selector),
       (''checked'', Bool True), (''timestamp'', Num 1000)]] \<and>
   runMacro agree_page
     (recordedSteps (deliver ''change'' toggle_event
        (deliver ''click'' toggle_event (startRecording idle)))) [] =
     [ShowRunningIndicator,
      QuerySelector agree_selector, ScrollIntoView checkbox_node, Wait (Num 200),
      HighlightElementBriefly checkbox_node, Click checkbox_node, Wait (Num 500),
      QuerySelector agree_selector, ScrollIntoView checkbox_node, Wait (Num 200),
      HighlightElementBriefly checkbox_node, Click checkbox_node, Wait (Num 500),
      RemoveRunningIndicator]"
proof -
  have rec: "isRecording (startRecording idle)"
    by (simp add: startRecording_def)
  have nid: "el_id (props (target toggle_event)) \<noteq> ''macromate-indicator''"
    by (simp add: toggle_event_def checkbox_node_def)
  have ty: "el_type (props (target toggle_event)) = Some ''checkbox'' \<or>
            el_type (props (target toggle_event)) = Some ''radio''"
    by (simp add: toggle_event_def checkbox_node_def)
  have tag: "toLowerCase (tagName (props (target toggle_event))) \<noteq> ''select''"
    by (simp add: toggle_event_def checkbox_node_def toLowerCase_def toLowerCase_char_def)
  have del: "deliver ''change'' toggle_event (deliver ''click'' toggle_event (startRecording idle))
             = handleChange toggle_event (handleClick toggle_event (startRecording idle))"
    by (simp add: deliver_def startRecording_def idle_def addEventListener_def
          handleClick_def handleChange_def Let_def)
  have one: "recordedSteps (handleClick toggle_event (startRecording idle)) =
     [[(''type'', Str ''click''), (''selector'', Str agree_selector),
       (''tagName'', Str ''input''), (''text'', Str []), (''timestamp'', Num 1000)]]"
    by (simp add: startRecording_def idle_def handleClick_def toggle_event_def checkbox_node_def
          getSelector_def of_opt_def agree_selector_def toLowerCase_def toLowerCase_char_def)
  have two: "recordedSteps (deliver ''change'' toggle_event
       (deliver ''click'' toggle_event (startRecording idle))) =
     [[(''type'', Str ''click''), (''selector'', Str agree_selector),
       (''tagName'', Str ''input''), (''text'', Str []), (''timestamp'', Num 1000)],
      [(''type'', Str ''click''), (''selector'', Str agree_selector),
       (''checked'', Bool True), (''timestamp'', Num 1000)]]"
    unfolding del
    using toggle_records_click_and_change [OF rec nid ty tag]
    by (simp add: startRecording_def idle_def toggle_event_def checkbox_node_def
          getSelector_def of_opt_def of_opt_bool_def agree_selector_def
          toLowerCase_def toLowerCase_char_def)
  show ?thesis
    unfolding two one
    by (simp add: runMacro_def executeStep_def field_def agree_page_def Let_def)
qed

section \<open>Failing fast\<close>





text \<open>
  C2 on the code. A Wait step has no selector, so \<open>executeStep\<close> looks up the string
  \<open>undefined\<close>; on a page without such an element the lookup fails, the run is aborted with
  an alert and no pause of the step's 2000 ms takes place. Where the lookup does find an
  element, the step scrolls to it, settles and highlights it before it pauses.
\<close>

theorem wait_step_is_looked_up:
  "runMacro empty_page [wait_step] [] =
     [ShowRunningIndicator, QuerySelector ''undefined'',
      Alert ''Error at step 1: Element not found: undefined'', RemoveRunningIndicator] \<and>
   executeStep go_page ((''selector'', Str ''#go'') # wait_step) [] =
     Returned [QuerySelector ''#go'', ScrollIntoView 7, Wait (Num 200),
               HighlightElementBriefly 7, Wait (Num 2000)]"
  by (simp add: runMacro_def executeStep_def field_def wait_step_def empty_page_def
        go_page_def digit_char_def Let_def)

section \<open>Text input\<close>

lemma handleInput_recording:
  "isRecording (handleInput ev st) = isRecording st"
  by (simp add: handleInput_def Let_def)

lemma fold_handleInput_recording:
  "isRecording (fold handleInput evs st) = isRecording st"
  by (induction evs arbitrary: st) (simp_all add: handleInput_recording)

lemma handleInput_buffer:
  "isRecording st \<Longrightarrow>
   recordedSteps (handleInput ev st) =
     filter (\<lambda>step. \<not> type_step_for (getSelector (doc ev) (target ev)) step) (recordedSteps st) @
     [[(''type'', Str ''type''), (''selector'', Str (getSelector (doc ev) (target ev))),
       (''text'', if el_type (props (target ev)) = Some ''password''
                  then Str ''{{SECRET}}'' else of_opt (el_value (props (target ev)))),
       (''secret'', Bool (el_type (props (target ev)) = Some ''password'')),
       (''timestamp'', Num (now ev))]]"
  by (simp add: handleInput_def Let_def type_step_for_def)

lemma new_step_is_type_step:
  "type_step_for selector
     [(''type'', Str ''type''), (''selector'', Str selector), (''text'', t),
      (''secret'', s), (''timestamp'', n)]"
  by (simp add: type_step_for_def field_def)

text \<open>
  C5. After a non-empty sequence of input events on one field (all resolving to the same
  selector) in a recording session, the buffer holds exactly one Type step for that
  selector, made from the last event: its text is the field's final value (the redaction
  marker if the field is a password field), whatever the buffer held before.
\<close>

theorem input_events_collapse:
  assumes "isRecording st"
    and "evs \<noteq> []"
    and "\<forall>ev \<in> set evs. getSelector (doc ev) (target ev) = selector"
  shows "filter (type_step_for selector) (recordedSteps (fold handleInput evs st)) =
         [[(''type'', Str ''type''), (''selector'', Str selector),
           (''text'', if el_type (props (target (last evs))) = Some ''password''
                      then Str ''{{SECRET}}'' else of_opt (el_value (props (target (last evs))))),
           (''secret'', Bool (el_type (props (target (last evs))) = Some ''password'')),
           (''timestamp'', Num (now (last evs)))]]"
proof -
  from assms(2) have evs: "evs = butlast evs @ [last evs]"
    by simp
  define st' where "st' = fold handleInput (butlast evs) st"
  have rec: "isRecording st'"
    using assms(1) by (simp add: st'_def fold_handleInput_recording)
  have sel: "getSelector (doc (last evs)) (target (last evs)) = selector"
    using assms(2,3) by simp
  have "fold handleInput evs st = handleInput (last evs) st'"
    by (subst evs) (simp add: st'_def)
  then show ?thesis
    by (simp add: handleInput_buffer [OF rec] sel new_step_is_type_step)
qed

theorem input_events_collapse_witness:
  "filter (type_step_for (name_selector ''q''))
     (recordedSteps (fold handleInput
        [input_event ''text'' ''q'' ''a'' 1, input_event ''text'' ''q'' ''ab'' 2,
         input_event ''text'' ''q'' ''abc'' 3] recording)) =
   [[(''type'', Str ''type''), (''selector'', Str (name_selector ''q'')),
     (''text'', Str ''abc''), (''secret'', Bool False), (''timestamp'', Num 3)]]"
proof -
  have rec: "isRecording recording"
    by (simp add: recording_def startRecording_def)
  have ne: "[input_event ''text'' ''q'' ''a'' 1, input_event ''text'' ''q'' ''ab'' 2,
             input_event ''text'' ''q'' ''abc'' 3] \<noteq> []"
    by simp
  have same: "\<forall>ev \<in> set [input_event ''text'' ''q'' ''a'' 1, input_event ''text'' ''q'' ''ab'' 2,
                           input_event ''text'' ''q'' ''abc'' 3].
                getSelector (doc ev) (target ev) = name_selector ''q''"
    by (simp add: input_event_def text_input_def getSelector_def of_opt_def name_selector_def)
  show ?thesis
    using input_events_collapse [OF rec ne same]
    by (simp add: input_event_def text_input_def of_opt_def)
qed

text \<open>
  C9. After an input event in a recording session, the Type step for the field's selector
  is the last element of the buffer and occurs nowhere before it; the steps in front of it
  are the earlier buffer without its Type steps for that selector, in their old order.
\<close>

theorem input_step_is_last:
  assumes "isRecording st"
  shows "recordedSteps (handleInput ev st) \<noteq> [] \<and>
         type_step_for (getSelector (doc ev) (target ev)) (last (recordedSteps (handleInput ev st))) \<and>
         field (last (recordedSteps (handleInput ev st))) ''timestamp'' = Num (now ev) \<and>
         filter (type_step_for (getSelector (doc ev) (target ev)))
           (butlast (recordedSteps (handleInput ev st))) = [] \<and>
         butlast (recordedSteps (handleInput ev st)) =
           filter (\<lambda>step. \<not> type_step_for (getSelector (doc ev) (target ev)) step)
             (recordedSteps st)"
  by (simp add: handleInput_buffer [OF assms] new_step_is_type_step) (simp add: field_def)

theorem input_step_is_last_witness:
  "isRecording (handleClick toggle_event (handleInput (input_event ''text'' ''q'' ''a'' 1) recording)) \<and>
   butlast (recordedSteps (handleInput (input_event ''text'' ''q'' ''ab'' 2)
      (handleClick toggle_event (handleInput (input_event ''text'' ''q'' ''a'' 1) recording)))) =
     [[(''type'', Str ''click''), (''selector'', Str agree_selector),
       (''tagName'', Str ''input''), (''text'', Str []), (''timestamp'', Num 1000)]] \<and>
   field (last (recordedSteps (handleInput (input_event ''text'' ''q'' ''ab'' 2)
      (handleClick toggle_event (handleInput (input_event ''text'' ''q'' ''a'' 1) recording)))))
     ''timestamp'' = Num 2"
proof -
  have rec: "isRecording (handleClick toggle_event
                (handleInput (input_event ''text'' ''q'' ''a'' 1) recording))"
    by (simp add: recording_def startRecording_def handleInput_def handleClick_def Let_def
          toggle_event_def checkbox_node_def)
  have before: "recordedSteps (handleClick toggle_event
                   (handleInput (input_event ''text'' ''q'' ''a'' 1) recording)) =
     [[(''type'', Str ''type''), (''selector'', Str (name_selector ''q'')),
       (''text'', Str ''a''), (''secret'', Bool False), (''timestamp'', Num 1)],
      [(''type'', Str ''click''), (''selector'', Str agree_selector),
       (''tagName'', Str ''input''), (''text'', Str []), (''timestamp'', Num 1000)]]"
    by (simp add: recording_def startRecording_def idle_def handleInput_def handleClick_def
          input_event_def text_input_def toggle_event_def checkbox_node_def getSelector_def
          of_opt_def name_selector_def agree_selector_def toLowerCase_def toLowerCase_char_def)
  have sel: "getSelector (doc (input_event ''text'' ''q'' ''ab'' 2))
               (target (input_event ''text'' ''q'' ''ab'' 2)) = name_selector ''q''"
    by (simp add: input_event_def text_input_def getSelector_def of_opt_def name_selector_def)
  have "butlast (recordedSteps (handleInput (input_event ''text'' ''q'' ''ab'' 2)
      (handleClick toggle_event (handleInput (input_event ''text'' ''q'' ''a'' 1) recording)))) =
     filter (\<lambda>step. \<not> type_step_for (name_selector ''q'') step)
       (recordedSteps (handleClick toggle_event
          (handleInput (input_event ''text'' ''q'' ''a'' 1) recording)))"
    and "field (last (recordedSteps (handleInput (input_event ''text'' ''q'' ''ab'' 2)
      (handleClick toggle_event (handleInput (input_event ''text'' ''q'' ''a'' 1) recording)))))
     ''timestamp'' = Num (now (input_event ''text'' ''q'' ''ab'' 2))"
    using input_step_is_last [OF rec, of "input_event ''text'' ''q'' ''ab'' 2"]
    unfolding sel by blast+
  then show ?thesis
    using rec unfolding before
    by (simp add: type_step_for_def field_def name_selector_def agree_selector_def quote_def
          input_event_def)
qed

section \<open>Password fields\<close>

lemma class_combination_ignores_value:
  "class_combination d (Node (e\<lparr>el_value := v\<rparr>) prev parent body) =
   class_combination d (Node e prev parent body)"
  by (cases "className e") (simp_all add: class_combination_def Let_def)

lemma positional_path_ignores_value:
  "positional_path (Node (e\<lparr>el_value := v\<rparr>) prev parent body) =
   positional_path (Node e prev parent body)"
  by (simp add: positional_path_def)

lemma getSelector_ignores_value:
  "getSelector d (Node (e\<lparr>el_value := v\<rparr>) prev parent body) = getSelector d (Node e prev parent body)"
  by (simp add: getSelector_def class_combination_ignores_value positional_path_ignores_value
        cong: option.case_cong)

lemma with_value_simps:
  "doc (with_value v ev) = doc ev"
  "now (with_value v ev) = now ev"
  "getSelector d (target (with_value v ev)) = getSelector d (target ev)"
  "el_id (props (target (with_value v ev))) = el_id (props (target ev))"
  "tagName (props (target (with_value v ev))) = tagName (props (target ev))"
  "el_type (props (target (with_value v ev))) = el_type (props (target ev))"
  "checked (props (target (with_value v ev))) = checked (props (target ev))"
  "innerText (props (target (with_value v ev))) = innerText (props (target ev))"
  by (cases "target ev"; simp add: with_value_def getSelector_ignores_value)+

lemma call_ignores_secret:
  assumes "el_type (props (target ev)) = Some ''password''"
    and "toLowerCase (tagName (props (target ev))) \<noteq> ''select''"
  shows "call h (with_value v ev) st = call h ev st"
proof (cases h)
  case HandleClick
  then show ?thesis by (simp add: handleClick_def with_value_simps)
next
  case HandleInput
  then show ?thesis using assms(1) by (simp add: handleInput_def with_value_simps)
next
  case HandleChange
  then show ?thesis using assms by (simp add: handleChange_def with_value_simps)
qed

lemma deliver_ignores_secret:
  assumes "differ_in_secret_only (ty, ev) (ty', ev')"
  shows "deliver ty ev st = deliver ty' ev' st"
proof -
  from assms have ty: "ty' = ty"
    by (simp add: differ_in_secret_only_def)
  have "call h ev s = call h ev' s" for h s
  proof (cases "ev = ev'")
    case True
    then show ?thesis by simp
  next
    case False
    with assms have pw: "el_type (props (target ev)) = Some ''password''"
      and tag: "toLowerCase (tagName (props (target ev))) \<noteq> ''select''"
      and eq: "with_value None ev = with_value None ev'"
      by (simp_all add: differ_in_secret_only_def)
    have pw': "el_type (props (target ev')) = Some ''password''"
      using pw with_value_simps(6) [of None ev] with_value_simps(6) [of None ev'] eq by simp
    have tag': "toLowerCase (tagName (props (target ev'))) \<noteq> ''select''"
      using tag with_value_simps(5) [of None ev] with_value_simps(5) [of None ev'] eq by simp
    have "call h ev s = call h (with_value None ev) s"
      by (simp add: call_ignores_secret [OF pw tag])
    also have "\<dots> = call h ev' s"
      by (simp add: eq call_ignores_secret [OF pw' tag'])
    finally show ?thesis .
  qed
  then have "(\<lambda>l s. if fst l = ty then call (snd l) ev s else s) =
             (\<lambda>l s. if fst l = ty then call (snd l) ev' s else s)"
    by (intro ext) simp
  then show ?thesis
    by (simp add: deliver_def ty)
qed

text \<open>
  C6. Two recording runs whose events are pairwise the same, or differ only in the value
  of the password field they target, leave the recorder in the same state: nothing recorded
  depends on the secret. The Type step recorded for an input event on a password field has
  the redaction marker as its text.
\<close>

theorem secret_never_recorded:
  "(list_all2 differ_in_secret_only run run' \<longrightarrow> deliver_all run st = deliver_all run' st) \<and>
   (isRecording st \<and> el_type (props (target ev)) = Some ''password'' \<longrightarrow>
      field (last (recordedSteps (handleInput ev st))) ''text'' = Str ''{{SECRET}}'' \<and>
      handleInput (with_value v ev) st = handleInput ev st)"
proof (intro conjI impI)
  assume "list_all2 differ_in_secret_only run run'"
  then show "deliver_all run st = deliver_all run' st"
  proof (induction arbitrary: st rule: list_all2_induct)
    case Nil
    show ?case by (simp add: deliver_all_def)
  next
    case (Cons a run b run')
    have "deliver (fst a) (snd a) st = deliver (fst b) (snd b) st"
      using deliver_ignores_secret [of "fst a" "snd a" "fst b" "snd b"] Cons.hyps(1) by simp
    then show ?case
      using Cons.IH [of "deliver (fst b) (snd b) st"] by (simp add: deliver_all_def)
  qed
next
  assume a: "isRecording st \<and> el_type (props (target ev)) = Some ''password''"
  then show "field (last (recordedSteps (handleInput ev st))) ''text'' = Str ''{{SECRET}}''"
    by (simp add: handleInput_buffer field_def)
  from a show "handleInput (with_value v ev) st = handleInput ev st"
    by (simp add: handleInput_def with_value_simps)
qed

theorem secret_never_recorded_witness:
  "deliver_all [(''input'', input_event ''password'' ''pw'' ''hunter2'' 5)] recording =
   deliver_all [(''input'', input_event ''password'' ''pw'' ''swordfish'' 5)] recording \<and>
   recordedSteps (deliver_all [(''input'', input_event ''password'' ''pw'' ''hunter2'' 5)] recording) =
     [[(''type'', Str ''type''), (''selector'', Str (name_selector ''pw'')),
       (''text'', Str ''{{SECRET}}''), (''secret'', Bool True), (''timestamp'', Num 5)]] \<and>
   field (last (recordedSteps (handleInput (input_event ''password'' ''pw'' ''hunter2'' 5) recording)))
     ''text'' = Str ''{{SECRET}}''"
proof -
  have rel: "list_all2 differ_in_secret_only
               [(''input'', input_event ''password'' ''pw'' ''hunter2'' 5)]
               [(''input'', input_event ''password'' ''pw'' ''swordfish'' 5)]"
    by (simp add: differ_in_secret_only_def input_event_def text_input_def with_value_def
          toLowerCase_def toLowerCase_char_def)
  have rec: "isRecording recording \<and>
             el_type (props (target (input_event ''password'' ''pw'' ''hunter2'' 5))) = Some ''password''"
    by (simp add: recording_def startRecording_def input_event_def text_input_def)
  have buf: "recordedSteps (deliver_all [(''input'', input_event ''password'' ''pw'' ''hunter2'' 5)] recording) =
     [[(''type'', Str ''type''), (''selector'', Str (name_selector ''pw'')),
       (''text'', Str ''{{SECRET}}''), (''secret'', Bool True), (''timestamp'', Num 5)]]"
    by (simp add: deliver_all_def deliver_def recording_def startRecording_def idle_def
          addEventListener_def handleInput_def input_event_def text_input_def getSelector_def
          of_opt_def name_selector_def)
  show ?thesis
    using secret_never_recorded
            [of "[(''input'', input_event ''password'' ''pw'' ''hunter2'' 5)]"
                "[(''input'', input_event ''password'' ''pw'' ''swordfish'' 5)]"
                recording "input_event ''password'' ''pw'' ''hunter2'' 5"] rel rec buf
    by simp
qed

section \<open>The positional path\<close>

lemma count_nth_filter:
  "count_nth tag prev k = k + length (filter (\<lambda>s. tagName s = tag) prev)"
  by (induction prev arbitrary: k) simp_all

lemma build_path_walk_up:
  "build_path n path = rev (map segment (walk_up n)) @ path"
proof (induction n path rule: build_path.induct)
  case (1 path)
  show ?case by simp
next
  case (2 e prev parent body path)
  show ?case
  proof (cases body)
    case True
    then show ?thesis by simp
  next
    case False
    show ?thesis
    proof (cases "el_id e = []")
      case True
      with False show ?thesis
        using "2.IH" by (simp add: segment_def ordinal_def count_nth_filter Let_def)
    next
      case id: False
      with False show ?thesis by (simp add: segment_def)
    qed
  qed
qed

lemma positional_path_spec:
  "positional_path n = path_spec '' > '' n"
  by (simp add: positional_path_def path_spec_def build_path_walk_up)

lemma getSelector_falls_through:
  assumes "el_id (props n) = []"
    and "\<not> truthy (of_opt (el_name (props n)))"
    and "class_combination d n = None"
  shows "getSelector d n = positional_path n"
  using assms by (simp add: getSelector_def)

text \<open>
  C8, as the code has it. The fallback of \<open>getSelector\<close> is the path of the specification:
  the levels from the node up to, and without, the document's root container, cut at the
  first level that has an identifier; at each level the lower-case tag name, followed by
  \<open>#\<close> and the identifier at the anchoring level, or by \<open>:nth-of-type(n)\<close> when the 1-based
  ordinal \<open>n\<close> among the same-tag siblings is greater than 1; the segments joined from the
  root end to the node. The separator is \<open>>\<close> between two blanks, the child combinator.
\<close>

theorem positional_path_walk:
  "positional_path n = path_spec '' > '' n \<and>
   (el_id (props n) = [] \<and> \<not> truthy (of_opt (el_name (props n))) \<and>
    class_combination d n = None \<longrightarrow> getSelector d n = path_spec '' > '' n)"
  by (simp add: positional_path_spec getSelector_falls_through)

theorem positional_path_walk_witness:
  "getSelector two_matches second_item = ''div > span:nth-of-type(2)'' \<and>
   path_spec '' > '' second_item = ''div > span:nth-of-type(2)'' \<and>
   positional_path anchored_item = ''div#main > span'' \<and>
   path_spec '' > '' anchored_item = ''div#main > span''"
proof -
  have fall: "el_id (props second_item) = [] \<and>
              \<not> truthy (of_opt (el_name (props second_item))) \<and>
              class_combination two_matches second_item = None"
    by (simp add: second_item_def plain_def of_opt_def class_combination_def two_matches_def
          Let_def)
  have spec2: "path_spec '' > '' second_item = ''div > span:nth-of-type(2)''"
    by (simp add: path_spec_def second_item_def div_node_def body_node_def plain_def
          segment_def ordinal_def toLowerCase_def toLowerCase_char_def digit_char_def)
  have spec3: "path_spec '' > '' anchored_item = ''div#main > span''"
    by (simp add: path_spec_def anchored_item_def body_node_def plain_def
          segment_def ordinal_def toLowerCase_def toLowerCase_char_def)
  show ?thesis
    using positional_path_walk [of second_item two_matches]
          positional_path_walk [of anchored_item two_matches] fall spec2 spec3
    by simp
qed

text \<open>
  C8, as the specification states it, fails on the separator: the descendant combinator of
  selectors is a blank, and the path of a nested node is not the blank-separated one.
\<close>

theorem positional_path_not_descendant_joined:
  "positional_path second_item = ''div > span:nth-of-type(2)'' \<and>
   path_spec '' '' second_item = ''div span:nth-of-type(2)'' \<and>
   positional_path second_item \<noteq> path_spec '' '' second_item"
proof -
  have "positional_path second_item = ''div > span:nth-of-type(2)''"
    by (simp add: positional_path_def second_item_def div_node_def body_node_def plain_def
          toLowerCase_def toLowerCase_char_def digit_char_def)
  moreover have "path_spec '' '' second_item = ''div span:nth-of-type(2)''"
    by (simp add: path_spec_def second_item_def div_node_def body_node_def plain_def
          segment_def ordinal_def toLowerCase_def toLowerCase_char_def digit_char_def)
  ultimately show ?thesis by simp
qed

section \<open>The root container\<close>

text \<open>
  C10. For \<open>document.body\<close> without identifier, without name and without a class
  combination that matches exactly once, the walk collects nothing and \<open>getSelector\<close>
  returns the empty string. A step that carries this selector aborts the replay on every
  page whose lookup of the empty selector finds no element.
\<close>

theorem getSelector_of_body_is_empty:
  assumes "isBody n"
    and "el_id (props n) = []"
    and "\<not> truthy (of_opt (el_name (props n)))"
    and "class_combination d n = None"
  shows "getSelector d n = [] \<and>
         (page tr [] = None \<longrightarrow>
            executeStep page [(''type'', Str ''click''), (''selector'', Str (getSelector d n))] tr =
              Thrown ''Element not found: '' (tr @ [QuerySelector []]))"
proof -
  have "positional_path n = []"
    using assms(1) by (cases n) (simp add: positional_path_def)
  then have empty: "getSelector d n = []"
    using assms(2-4) by (simp add: getSelector_falls_through)
  show ?thesis
    by (simp add: empty executeStep_def field_def Let_def)
qed

theorem getSelector_of_body_is_empty_witness:
  "getSelector two_matches body_node = [] \<and>
   runMacro empty_page [[(''type'', Str ''click''), (''selector'', Str (getSelector two_matches body_node))]] [] =
     [ShowRunningIndicator, QuerySelector [], Alert ''Error at step 1: Element not found: '',
      RemoveRunningIndicator]"
proof -
  have b: "isBody body_node" and i: "el_id (props body_node) = []"
    and n: "\<not> truthy (of_opt (el_name (props body_node)))"
    and c: "class_combination two_matches body_node = None"
    by (simp_all add: body_node_def of_opt_def class_combination_def)
  have p: "empty_page [ShowRunningIndicator] [] = None"
    by (simp add: empty_page_def)
  note inst = getSelector_of_body_is_empty [OF b i n c, of empty_page "[ShowRunningIndicator]"]
  have e: "getSelector two_matches body_node = []"
    using inst by (rule conjunct1)
  have t: "executeStep empty_page [(''type'', Str ''click''), (''selector'', Str [])]
             [ShowRunningIndicator] =
           Thrown ''Element not found: '' ([ShowRunningIndicator] @ [QuerySelector []])"
    using inst p unfolding e by simp
  show ?thesis
    by (simp add: e t runMacro_def digit_char_def)
qed

section \<open>Siblings with the same classes\<close>

lemma digit_char_inj:
  assumes "i < 10" and "j < 10" and "digit_char i = digit_char j"
  shows "i = j"
proof -
  have "distinct ''0123456789''" by simp
  then show ?thesis
    using assms by (simp add: digit_char_def nth_eq_iff_index_eq)
qed

lemma show_nat_small: "n < 10 \<Longrightarrow> show_nat n = [digit_char n]"
  by simp

lemma show_nat_big: "\<not> n < 10 \<Longrightarrow> show_nat n = show_nat (n div 10) @ [digit_char (n mod 10)]"
  by simp

lemma show_nat_nonempty: "show_nat n \<noteq> []"
  by (cases "n < 10") (simp_all only: show_nat_small show_nat_big, simp_all)

lemma show_nat_inj: "show_nat m = show_nat n \<Longrightarrow> m = n"
proof (induction m arbitrary: n rule: show_nat.induct)
  case (1 m)
  show ?case
  proof (cases "m < 10")
    case m: True
    show ?thesis
    proof (cases "n < 10")
      case True
      have "[digit_char m] = [digit_char n]"
        using "1.prems" unfolding show_nat_small [OF m] show_nat_small [OF True] .
      with m True show ?thesis
        by (simp add: digit_char_inj)
    next
      case False
      have "[digit_char m] = show_nat (n div 10) @ [digit_char (n mod 10)]"
        using "1.prems" unfolding show_nat_small [OF m] show_nat_big [OF False] .
      then show ?thesis using show_nat_nonempty [of "n div 10"] by simp
    qed
  next
    case m: False
    show ?thesis
    proof (cases "n < 10")
      case True
      have "show_nat (m div 10) @ [digit_char (m mod 10)] = [digit_char n]"
        using "1.prems" unfolding show_nat_big [OF m] show_nat_small [OF True] .
      then show ?thesis using show_nat_nonempty [of "m div 10"] by simp
    next
      case False
      have "show_nat (m div 10) @ [digit_char (m mod 10)] =
            show_nat (n div 10) @ [digit_char (n mod 10)]"
        using "1.prems" unfolding show_nat_big [OF m] show_nat_big [OF False] .
      then have q: "show_nat (m div 10) = show_nat (n div 10)"
        and r: "digit_char (m mod 10) = digit_char (n mod 10)"
        by simp_all
      from q have "m div 10 = n div 10"
        using "1.IH" [OF m] by simp
      moreover from r have "m mod 10 = n mod 10"
        by (intro digit_char_inj) simp_all
      ultimately show ?thesis
        by (metis div_mult_mod_eq)
    qed
  qed
qed

lemma join_snoc:
  "join sep (xs @ [s]) = (if xs = [] then s else join sep xs @ sep @ s)"
  by (induction sep xs rule: join.induct) simp_all

lemma set_join:
  "set (join sep xs) \<subseteq> set sep \<union> (\<Union>x \<in> set xs. set x)"
  by (induction sep xs rule: join.induct) auto

lemma positional_path_last_segment:
  assumes "\<not> isBody n" and "el_id (props n) = []"
  shows "positional_path n =
           (if walk_up (parentElement n) = [] then segment n
            else join '' > '' (rev (map segment (walk_up (parentElement n)))) @ '' > '' @ segment n)"
proof (cases n)
  case (Node e prev parent body)
  with assms have "walk_up (Some n) = n # walk_up parent"
    by simp
  then show ?thesis
    using Node by (simp add: positional_path_spec path_spec_def join_snoc)
qed

lemma ordinal_of_later_sibling:
  assumes "siblings_in_order a b" and "tagName (props a) = tagName (props b)"
  shows "ordinal a < ordinal b"
proof -
  let ?k = "length (previousElementSiblings b) - Suc (length (previousElementSiblings a))"
  from assms(1) have later: "drop ?k (previousElementSiblings b) =
      props a # previousElementSiblings a"
    by (simp add: siblings_in_order_def)
  have prev: "previousElementSiblings b =
      take ?k (previousElementSiblings b) @ props a # previousElementSiblings a"
    using append_take_drop_id [of ?k "previousElementSiblings b"] unfolding later
    by (rule sym)
  have "ordinal b =
      Suc (length (filter (\<lambda>s. tagName s = tagName (props b))
             (take ?k (previousElementSiblings b) @ props a # previousElementSiblings a)))"
    unfolding ordinal_def using prev by simp
  then show ?thesis
    using assms(2) by (simp add: ordinal_def)
qed

lemma segment_of_later_sibling:
  assumes "el_id (props a) = []" and "el_id (props b) = []"
    and "tagName (props a) = tagName (props b)" and "ordinal a < ordinal b"
  shows "segment a \<noteq> segment b"
proof
  assume eq: "segment a = segment b"
  have "0 < ordinal a"
    by (simp add: ordinal_def)
  with assms(4) have "1 < ordinal b"
    by simp
  then have b: "segment b = toLowerCase (tagName (props b)) @ '':nth-of-type('' @ show_nat (ordinal b) @ '')''"
    using assms(2) by (simp add: segment_def)
  show False
  proof (cases "ordinal a > 1")
    case True
    then have "segment a = toLowerCase (tagName (props b)) @ '':nth-of-type('' @ show_nat (ordinal a) @ '')''"
      using assms(1,3) by (simp add: segment_def)
    with eq b have "show_nat (ordinal a) = show_nat (ordinal b)"
      by simp
    then show False
      using assms(4) show_nat_inj by fastforce
  next
    case False
    then have "segment a = toLowerCase (tagName (props b))"
      using assms(1,3) by (simp add: segment_def)
    with eq b show False by simp
  qed
qed

lemma sibling_paths_differ:
  assumes "siblings_in_order a b"
    and "\<not> isBody a" and "\<not> isBody b"
    and "el_id (props a) = []" and "el_id (props b) = []"
    and "tagName (props a) = tagName (props b)"
  shows "positional_path a \<noteq> positional_path b"
proof -
  have parent: "parentElement a = parentElement b"
    using assms(1) by (simp add: siblings_in_order_def)
  have "segment a \<noteq> segment b"
    using assms by (intro segment_of_later_sibling ordinal_of_later_sibling)
  then show ?thesis
    by (simp add: positional_path_last_segment assms(2-5) parent)
qed

lemma toLowerCase_char_space:
  "is_space (toLowerCase_char c) = is_space c"
  by (auto simp: toLowerCase_char_def is_space_def split: option.splits if_splits)

lemma split_ws_last:
  assumes "dropWhile (\<lambda>c. \<not> is_space c) s = []"
  shows "split_ws s = [takeWhile (\<lambda>c. \<not> is_space c) s]"
proof -
  have "split_ws s =
     (if dropWhile (\<lambda>c. \<not> is_space c) s = [] then [takeWhile (\<lambda>c. \<not> is_space c) s]
      else takeWhile (\<lambda>c. \<not> is_space c) s #
           split_ws (dropWhile is_space (dropWhile (\<lambda>c. \<not> is_space c) s)))"
    by (subst split_ws.simps) (simp only: Let_def)
  then show ?thesis
    by (simp only: assms if_True simp_thms)
qed

lemma split_ws_more:
  assumes "dropWhile (\<lambda>c. \<not> is_space c) s \<noteq> []"
  shows "split_ws s = takeWhile (\<lambda>c. \<not> is_space c) s #
                split_ws (dropWhile is_space (dropWhile (\<lambda>c. \<not> is_space c) s))"
proof -
  have "split_ws s =
     (if dropWhile (\<lambda>c. \<not> is_space c) s = [] then [takeWhile (\<lambda>c. \<not> is_space c) s]
      else takeWhile (\<lambda>c. \<not> is_space c) s #
           split_ws (dropWhile is_space (dropWhile (\<lambda>c. \<not> is_space c) s)))"
    by (subst split_ws.simps) (simp only: Let_def)
  then show ?thesis
    by (simp only: assms if_False simp_thms)
qed

lemma split_ws_no_space:
  "c \<in> set (split_ws s) \<Longrightarrow> ch \<in> set c \<Longrightarrow> \<not> is_space ch"
proof (induction s arbitrary: c rule: split_ws.induct)
  case (1 s)
  have piece: "ch \<in> set (takeWhile (\<lambda>c. \<not> is_space c) s) \<Longrightarrow> \<not> is_space ch"
    by (rule set_takeWhileD [THEN conjunct2])
  show ?case
  proof (cases "dropWhile (\<lambda>c. \<not> is_space c) s = []")
    case True
    have "c = takeWhile (\<lambda>c. \<not> is_space c) s"
      using "1.prems"(1) unfolding split_ws_last [OF True] by simp
    with "1.prems"(2) piece show ?thesis
      by simp
  next
    case False
    have "c = takeWhile (\<lambda>c. \<not> is_space c) s \<or>
        c \<in> set (split_ws (dropWhile is_space (dropWhile (\<lambda>c. \<not> is_space c) s)))"
      using "1.prems"(1) unfolding split_ws_more [OF False] by simp
    then show ?thesis
    proof
      assume "c = takeWhile (\<lambda>c. \<not> is_space c) s"
      with "1.prems"(2) piece show ?thesis
        by simp
    next
      assume "c \<in> set (split_ws (dropWhile is_space (dropWhile (\<lambda>c. \<not> is_space c) s)))"
      then show ?thesis
        using "1.IH" [OF refl refl False] "1.prems"(2) by blast
    qed
  qed
qed

lemma compound_selector_no_space:
  assumes "\<forall>c \<in> set tag. \<not> is_space c"
  shows "CHR '' '' \<notin> set (compound_selector tag (classes_of cn))"
proof
  assume "CHR '' '' \<in> set (compound_selector tag (classes_of cn))"
  then consider "CHR '' '' \<in> set (toLowerCase tag)"
    | "CHR '' '' \<in> set (join ''.'' (classes_of cn))"
    by (auto simp: compound_selector_def)
  then show False
  proof cases
    case 1
    then obtain c where "c \<in> set tag" and "toLowerCase_char c = CHR '' ''"
      by (auto simp: toLowerCase_def)
    then have "is_space c"
      using toLowerCase_char_space [of c] by (simp add: is_space_def)
    with assms \<open>c \<in> set tag\<close> show False by blast
  next
    case 2
    then obtain x where "x \<in> set (classes_of cn)" and "CHR '' '' \<in> set x"
      using set_join [of "''.''" "classes_of cn"] by auto
    then show False
      using split_ws_no_space [of x "trim cn" "CHR '' ''"]
      by (simp add: classes_of_def is_space_def)
  qed
qed

lemma positional_path_not_compound:
  assumes "\<not> isBody n" and "el_id (props n) = []"
    and "\<forall>c \<in> set (tagName (props n)). \<not> is_space c"
  shows "positional_path n \<noteq> compound_selector (tagName (props n)) (classes_of cn)"
proof (cases "walk_up (parentElement n) = []")
  case True
  then have "positional_path n = segment n"
    using assms(1,2) by (simp add: positional_path_last_segment)
  then show ?thesis
    using assms(2) by (auto simp: segment_def compound_selector_def)
next
  case False
  then have "CHR '' '' \<in> set (positional_path n)"
    using assms(1,2) by (simp add: positional_path_last_segment)
  then show ?thesis
    using compound_selector_no_space [OF assms(3), of cn] by metis
qed

lemma class_combination_unique:
  "class_combination d n = Some selector \<Longrightarrow> d selector = 1"
  by (auto simp: class_combination_def Let_def split: option.splits if_splits)

lemma class_combination_ambiguous:
  assumes "className (props n) = Some cn"
    and "d (compound_selector (tagName (props n)) (classes_of cn)) \<noteq> 1"
  shows "class_combination d n = None"
  using assms by (simp add: class_combination_def Let_def)

text \<open>
  What the class rule does. \<open>getSelector\<close> returns the class-combination selector only when
  the document has exactly one match for it. Take two element siblings with the same tag
  name and the same class list, without identifier and name, and let the document's count
  for their compound selector be anything but 1. Then \<open>getSelector\<close> returns for each of
  them its positional path, the two paths differ, and neither is the compound selector.
  (Tag names contain no white space.)
\<close>

lemma siblings_fall_back_to_paths:
  assumes "siblings_in_order a b"
    and "\<not> isBody a" and "\<not> isBody b"
    and "el_id (props a) = []" and "el_id (props b) = []"
    and "\<not> truthy (of_opt (el_name (props a)))" and "\<not> truthy (of_opt (el_name (props b)))"
    and "tagName (props a) = tagName (props b)"
    and "\<forall>c \<in> set (tagName (props a)). \<not> is_space c"
    and "className (props a) = Some ca" and "className (props b) = Some cb"
    and "classes_of ca = classes_of cb"
    and "d (compound_selector (tagName (props a)) (classes_of ca)) \<noteq> 1"
  shows "getSelector d a = positional_path a \<and>
         getSelector d b = positional_path b \<and>
         getSelector d a \<noteq> getSelector d b \<and>
         getSelector d a \<noteq> compound_selector (tagName (props a)) (classes_of ca) \<and>
         getSelector d b \<noteq> compound_selector (tagName (props a)) (classes_of ca) \<and>
         (\<forall>n selector. class_combination d n = Some selector \<longrightarrow> d selector = 1)"
proof -
  note many = assms(13)
  have "class_combination d a = None"
    using assms(10) many by (rule class_combination_ambiguous)
  then have a: "getSelector d a = positional_path a"
    using assms(4,6) by (simp add: getSelector_falls_through)
  have "d (compound_selector (tagName (props b)) (classes_of cb)) \<noteq> 1"
    using many assms(8,12) by simp
  with assms(11) have "class_combination d b = None"
    by (rule class_combination_ambiguous)
  then have b: "getSelector d b = positional_path b"
    using assms(5,7) by (simp add: getSelector_falls_through)
  have differ: "positional_path a \<noteq> positional_path b"
    using assms(1-5,8) by (rule sibling_paths_differ)
  have not_a: "positional_path a \<noteq> compound_selector (tagName (props a)) (classes_of ca)"
    using assms(2,4,9) by (rule positional_path_not_compound)
  have "\<forall>c \<in> set (tagName (props b)). \<not> is_space c"
    using assms(8,9) by simp
  with assms(3,5)
  have "positional_path b \<noteq> compound_selector (tagName (props b)) (classes_of ca)"
    by (rule positional_path_not_compound)
  then have not_b: "positional_path b \<noteq> compound_selector (tagName (props a)) (classes_of ca)"
    using assms(8) by simp
  show ?thesis
    using a b differ not_a not_b class_combination_unique by auto
qed

lemma siblings_fall_back_to_paths_example:
  "siblings_in_order first_item second_item \<and>
   compound_selector (tagName (props first_item)) (classes_of ''item  hot'') = ''span.item.hot'' \<and>
   getSelector two_matches first_item = ''div > span'' \<and>
   getSelector two_matches second_item = ''div > span:nth-of-type(2)''"
proof -
  have sib: "siblings_in_order first_item second_item"
    by (simp add: siblings_in_order_def first_item_def second_item_def)
  have nb: "\<not> isBody first_item" "\<not> isBody second_item"
    and ni: "el_id (props first_item) = []" "el_id (props second_item) = []"
    and nn: "\<not> truthy (of_opt (el_name (props first_item)))"
            "\<not> truthy (of_opt (el_name (props second_item)))"
    and tg: "tagName (props first_item) = tagName (props second_item)"
    and ws: "\<forall>c \<in> set (tagName (props first_item)). \<not> is_space c"
    and cl: "className (props first_item) = Some ''item  hot''"
            "className (props second_item) = Some ''item  hot''"
    by (simp_all add: first_item_def second_item_def plain_def of_opt_def is_space_def)
  have two: "two_matches (compound_selector (tagName (props first_item))
                            (classes_of ''item  hot'')) \<noteq> 1"
    by (simp add: two_matches_def)
  have p1: "positional_path first_item = ''div > span''"
    by (simp add: positional_path_def first_item_def div_node_def body_node_def plain_def
          toLowerCase_def toLowerCase_char_def)
  have p2: "positional_path second_item = ''div > span:nth-of-type(2)''"
    by (simp add: positional_path_def second_item_def div_node_def body_node_def plain_def
          toLowerCase_def toLowerCase_char_def digit_char_def)
  have cs: "compound_selector (tagName (props first_item)) (classes_of ''item  hot'') =
            ''span.item.hot''"
    by (simp add: compound_selector_def classes_of_def trim_def split_ws.simps is_space_def
          first_item_def plain_def toLowerCase_def toLowerCase_char_def)
  show ?thesis
    using siblings_fall_back_to_paths
            [of first_item second_item "''item  hot''" "''item  hot''" two_matches,
             OF sib nb ni nn tg ws cl refl two]
    by (simp add: sib p1 p2 cs)
qed

text \<open>
  C7 on the code. Line 217 pastes the class tokens into the selector as they are. Two
  sibling spans carry the one class token \<open>a.b\<close>; the document holds, besides them, one span
  with the two classes \<open>a\<close> and \<open>b\<close>. The selector built for either sibling is \<open>span.a.b\<close>,
  which asks for the classes \<open>a\<close> and \<open>b\<close>: the document's only match is the third span, the
  count is 1, and \<open>getSelector\<close> returns \<open>span.a.b\<close> for both siblings, not their positional
  paths \<open>div > span\<close> and \<open>div > span:nth-of-type(2)\<close>.
\<close>

theorem dotted_class_siblings_get_compound:
  "siblings_in_order dotted_first dotted_second \<and>
   className (props dotted_first) = className (props dotted_second) \<and>
   getSelector one_match dotted_first = ''span.a.b'' \<and>
   getSelector one_match dotted_second = ''span.a.b'' \<and>
   positional_path dotted_first = ''div > span'' \<and>
   positional_path dotted_second = ''div > span:nth-of-type(2)''"
proof -
  have sib: "siblings_in_order dotted_first dotted_second"
    by (simp add: siblings_in_order_def dotted_first_def dotted_second_def)
  have cls: "classes_of ''a.b'' = [''a.b'']"
    by (simp add: classes_of_def trim_def split_ws.simps is_space_def)
  have sel: "compound_selector ''SPAN'' [''a.b''] = ''span.a.b''"
    by (simp add: compound_selector_def toLowerCase_def toLowerCase_char_def)
  have g1: "getSelector one_match dotted_first = ''span.a.b''"
    by (simp add: getSelector_def class_combination_def dotted_first_def plain_def of_opt_def
          cls sel one_match_def)
  have g2: "getSelector one_match dotted_second = ''span.a.b''"
    by (simp add: getSelector_def class_combination_def dotted_second_def plain_def of_opt_def
          cls sel one_match_def)
  have p1: "positional_path dotted_first = ''div > span''"
    by (simp add: positional_path_def dotted_first_def div_node_def body_node_def plain_def
          toLowerCase_def toLowerCase_char_def)
  have p2: "positional_path dotted_second = ''div > span:nth-of-type(2)''"
    by (simp add: positional_path_def dotted_second_def div_node_def body_node_def plain_def
          toLowerCase_def toLowerCase_char_def digit_char_def)
  show ?thesis
    using sib g1 g2 p1 p2 by (simp add: dotted_first_def dotted_second_def)
qed

end
